theory Spec2Isabelle
  imports Main "HOL-Library.AList"
begin

section \<open>The signalling core of notify.py\<close>

text \<open>
  A shallow embedding of \<^verbatim>\<open>rtclite/app/web/rtc/notify.py\<close>: the class \<open>Space\<close>, the
  module-level table \<open>spaces\<close> and the four hooks \<open>onhandshake\<close>, \<open>onopen\<close>, \<open>onclose\<close>
  and \<open>onmessage\<close> handed to the WebSocket server.

  The hooks mutate the table and talk to connection objects; here they take the world
  and return it updated, together with the exception that left the hook, if any. An
  exception does not undo what the hook did before it was raised, so the world is
  returned in both cases.
\<close>

subsection \<open>Values\<close>

text \<open>
  What \<open>json.loads\<close> returns and \<open>json.dumps\<close> takes. An object is the list of its
  items; a key is looked up with \<open>map_of\<close>. A number that is not an integer is kept as
  its literal.
\<close>

datatype json =
    JNull
  | JBool bool
  | JNum int
  | JFloat string
  | JStr string
  | JArr "json list"
  | JObj "(string \<times> json) list"

text \<open>
  A connection object of the server. The hooks read its \<open>path\<close>, compare it with other
  connections (\<open>x != request\<close>, which for these objects is identity: \<open>conn_id\<close> stands
  for it) and call its \<open>send_message\<close> and \<open>close\<close>.
\<close>

record request =
  conn_id :: nat
  path :: string

datatype error =
    HTTPError string
  | KeyError string
  | TypeError
  | ValueError
  | SendError

text \<open>What the hooks do to connections, in the order they do it.\<close>

datatype event =
    Send request json
  | Close request

datatype log_entry =
    LogDebug string
  | LogInfo string
  | LogError string

subsection \<open>Space\<close>

record Space =
  space_path :: string
  requests :: "request list"
  pending :: "(request \<times> json) list"

definition Space_init :: "string \<Rightarrow> Space" where
  "Space_init p = \<lparr>space_path = p, requests = [], pending = []\<rparr>"

definition is_full :: "Space \<Rightarrow> bool" where
  "is_full s = (length (requests s) \<ge> 2)"

definition is_empty :: "Space \<Rightarrow> bool" where
  "is_empty s = (length (requests s) = 0)"

definition add :: "Space \<Rightarrow> request \<Rightarrow> Space" where
  "add s r = s\<lparr>requests := requests s @ [r]\<rparr>"

text \<open>
  \<open>list.remove\<close> deletes the first occurrence and raises when there is none; the
  exception is ignored. The pending entries of that sender are dropped.
\<close>

definition remove :: "Space \<Rightarrow> request \<Rightarrow> Space" where
  "remove s r =
     s\<lparr>requests := remove1 r (requests s),
       pending := filter (\<lambda>(q, d). q \<noteq> r) (pending s)\<rparr>"

text \<open>
  \<open>result and result[0] or None\<close>: the first member that is not \<open>request\<close>.
  Connection objects are taken to be true in a boolean context, as objects are
  unless their class says otherwise.
\<close>

definition get_other :: "Space \<Rightarrow> request \<Rightarrow> request option" where
  "get_other s r =
     (case filter (\<lambda>x. x \<noteq> r) (requests s) of
        [] \<Rightarrow> None
      | x # _ \<Rightarrow> Some x)"

subsection \<open>The world\<close>

record world =
  spaces :: "string \<rightharpoonup> Space"
  out :: "event list"
  logs :: "log_entry list"

definition world_init :: world where
  "world_init = \<lparr>spaces = Map.empty, out = [], logs = []\<rparr>"

type_synonym outcome = "error option \<times> world"

text \<open>
  Whether a \<open>send_message\<close> succeeds is decided by the socket, outside this module.
  The hooks take that decision as a parameter: \<open>ok h r m\<close> says whether sending \<open>m\<close>
  to \<open>r\<close> succeeds after the events \<open>h\<close>. A send that fails raises and delivers
  nothing. \<open>close\<close> is taken not to raise, and to return before the closed
  connection's own close hook runs.
\<close>

type_synonym net = "event list \<Rightarrow> request \<Rightarrow> json \<Rightarrow> bool"

definition send_message :: "net \<Rightarrow> request \<Rightarrow> json \<Rightarrow> world \<Rightarrow> outcome" where
  "send_message ok r m w =
     (if ok (out w) r m then (None, w\<lparr>out := out w @ [Send r m]\<rparr>)
      else (Some SendError, w))"

definition close :: "request \<Rightarrow> world \<Rightarrow> world" where
  "close r w = w\<lparr>out := out w @ [Close r]\<rparr>"

definition log :: "log_entry \<Rightarrow> world \<Rightarrow> world" where
  "log e w = w\<lparr>logs := logs w @ [e]\<rparr>"

text \<open>
  \<open>if path in spaces: space = spaces[path] else: space = spaces[path] = Space(path)\<close>,
  as \<open>onopen\<close> and \<open>onmessage\<close> both have it.
\<close>

definition lookup_or_create :: "string \<Rightarrow> world \<Rightarrow> Space \<times> world" where
  "lookup_or_create p w =
     (case spaces w p of
        Some s \<Rightarrow> (s, w)
      | None \<Rightarrow>
          (Space_init p,
           log (LogInfo (''creating space '' @ p)) (w\<lparr>spaces := (spaces w)(p \<mapsto> Space_init p)\<rparr>)))"

text \<open>The space object is shared with the table: a change to it is a change there.\<close>

definition store :: "string \<Rightarrow> Space \<Rightarrow> world \<Rightarrow> world" where
  "store p s w = w\<lparr>spaces := (spaces w)(p \<mapsto> s)\<rparr>"

subsection \<open>onhandshake\<close>

definition onhandshake :: "request \<Rightarrow> string \<Rightarrow> (string \<times> string) list \<Rightarrow> world \<Rightarrow> outcome" where
  "onhandshake r p headers w =
     (case spaces w p of
        None \<Rightarrow> (None, w)
      | Some s \<Rightarrow>
          if is_full s
          then (Some (HTTPError ''400 Bad Request - Space Full''),
                log (LogError ''space is full, closing'') w)
          else (None, w))"

subsection \<open>onopen\<close>

definition notify_message :: "json \<Rightarrow> json" where
  "notify_message d = JObj [(''method'', JStr ''NOTIFY''), (''data'', d)]"

text \<open>The loop over \<open>space.pending\<close>: the first send that raises ends it.\<close>

fun flush :: "net \<Rightarrow> request \<Rightarrow> (request \<times> json) list \<Rightarrow> world \<Rightarrow> outcome" where
  "flush ok r [] w = (None, w)"
| "flush ok r ((ignore, d) # q) w =
     (case send_message ok r (notify_message d) w of
        (Some e, w') \<Rightarrow> (Some e, w')
      | (None, w') \<Rightarrow> flush ok r q w')"

definition onopen :: "net \<Rightarrow> request \<Rightarrow> world \<Rightarrow> outcome" where
  "onopen ok r w =
     (let (s, w1) = lookup_or_create (path r) w;
          s1 = add s r;
          w2 = store (path r) s1 w1
      in case flush ok r (pending s1) w2 of
           (Some e, w3) \<Rightarrow> (Some e, w3)
         | (None, w3) \<Rightarrow> (None, store (path r) (s1\<lparr>pending := []\<rparr>) w3))"

subsection \<open>onclose\<close>

definition onclose :: "request \<Rightarrow> world \<Rightarrow> outcome" where
  "onclose r w =
     (case spaces w (path r) of
        None \<Rightarrow> (None, w)
      | Some s \<Rightarrow>
          (let other = get_other s r;
               s1 = remove s r;
               (s2, w1) = (case other of
                             None \<Rightarrow> (s1, store (path r) s1 w)
                           | Some x \<Rightarrow> (remove s1 x, close x (store (path r) (remove s1 x) w)))
           in if is_empty s2
              then (None, w1\<lparr>spaces := (spaces w1)(path r := None)\<rparr>)
              else (None, w1)))"

subsection \<open>onmessage\<close>

text \<open>\<open>data[k]\<close>: a missing key raises KeyError, and what is not an object raises TypeError.\<close>

definition getitem :: "json \<Rightarrow> string \<Rightarrow> error + json" where
  "getitem data k =
     (case data of
        JObj kvs \<Rightarrow> (case map_of kvs k of None \<Rightarrow> Inl (KeyError k) | Some v \<Rightarrow> Inr v)
      | _ \<Rightarrow> Inl TypeError)"

definition contains :: "json \<Rightarrow> string \<Rightarrow> bool" where
  "contains data k = (case data of JObj kvs \<Rightarrow> map_of kvs k \<noteq> None | _ \<Rightarrow> False)"

definition configuration :: json where
  "configuration = JObj [(''iceServers'', JArr [JObj [(''url'', JStr ''stun:stun.l.google.com:19302'')]])]"

text \<open>
  \<open>data['method'] == 'GET' and data['resource'] == '/peerconnection'\<close>: the second
  lookup happens only when the first comparison holds.
\<close>

definition is_get_peerconnection :: "json \<Rightarrow> error + bool" where
  "is_get_peerconnection data =
     (case getitem data ''method'' of
        Inl e \<Rightarrow> Inl e
      | Inr m \<Rightarrow>
          if m = JStr ''GET''
          then (case getitem data ''resource'' of
                  Inl e \<Rightarrow> Inl e
                | Inr res \<Rightarrow> Inr (res = JStr ''/peerconnection''))
          else Inr False)"

definition response :: "json \<Rightarrow> (string \<times> json) list" where
  "response data =
     (let resp = [(''code'', JStr ''success''),
                  (''result'', JObj [(''configuration'', configuration)])]
      in if contains data ''msg_id''
         then (case getitem data ''msg_id'' of
                 Inr v \<Rightarrow> AList.update ''msg_id'' v resp
               | Inl e \<Rightarrow> resp)
         else resp)"

text \<open>
  The NOTIFY branch. With a peer, the lookup of \<open>data['data']\<close> and the send are
  inside \<open>try: ... except: pass\<close>; without one, the lookup is not.
\<close>

definition notify :: "net \<Rightarrow> request \<Rightarrow> json \<Rightarrow> world \<Rightarrow> outcome" where
  "notify ok r data w =
     (let (s, w1) = lookup_or_create (path r) w
      in case get_other s r of
           Some other \<Rightarrow>
             (case getitem data ''data'' of
                Inl e \<Rightarrow> (None, w1)
              | Inr d \<Rightarrow>
                  (case send_message ok other (notify_message d) w1 of
                     (Some e, w2) \<Rightarrow> (None, w1)
                   | (None, w2) \<Rightarrow> (None, w2)))
         | None \<Rightarrow>
             (case getitem data ''data'' of
                Inl e \<Rightarrow> (Some e, w1)
              | Inr d \<Rightarrow> (None, store (path r) (s\<lparr>pending := pending s @ [(r, d)]\<rparr>) w1)))"

text \<open>
  \<open>json.loads\<close> is the library's; the hook takes it as \<open>loads\<close>, with \<open>None\<close> where it
  raises ValueError.
\<close>

definition onmessage :: "net \<Rightarrow> (string \<Rightarrow> json option) \<Rightarrow> request \<Rightarrow> string \<Rightarrow> world \<Rightarrow> outcome" where
  "onmessage ok loads r message w =
     (let w0 = log (LogDebug message) w
      in case loads message of
           None \<Rightarrow> (Some ValueError, w0)
         | Some data \<Rightarrow>
             (case is_get_peerconnection data of
                Inl e \<Rightarrow> (Some e, w0)
              | Inr True \<Rightarrow> send_message ok r (JObj (response data)) w0
              | Inr False \<Rightarrow>
                  (case getitem data ''method'' of
                     Inl e \<Rightarrow> (Some e, w0)
                   | Inr m \<Rightarrow>
                       if m = JStr ''NOTIFY'' then notify ok r data w0
                       else (None, w0))))"

subsection \<open>Sequences of hook calls\<close>

datatype call =
    Handshake request string "(string \<times> string) list"
  | Open request
  | Message request string
  | CloseHook request

fun run_call :: "net \<Rightarrow> (string \<Rightarrow> json option) \<Rightarrow> call \<Rightarrow> world \<Rightarrow> outcome" where
  "run_call ok loads (Handshake r p h) w = onhandshake r p h w"
| "run_call ok loads (Open r) w = onopen ok r w"
| "run_call ok loads (Message r m) w = onmessage ok loads r m w"
| "run_call ok loads (CloseHook r) w = onclose r w"

text \<open>
  The server goes on after a hook has raised: the exception ends that call only.
  \<open>run_calls\<close> gives what each call raised, in order, and the world at the end.
\<close>

fun run_calls :: "net \<Rightarrow> (string \<Rightarrow> json option) \<Rightarrow> call list \<Rightarrow> world \<Rightarrow> error option list \<times> world" where
  "run_calls ok loads [] w = ([], w)"
| "run_calls ok loads (c # cs) w =
     (case run_call ok loads c w of
        (e, w') \<Rightarrow> (case run_calls ok loads cs w' of (es, w'') \<Rightarrow> (e # es, w'')))"

subsection \<open>Spaces that stay, spaces that go\<close>

text \<open>
  \<open>nonvacant\<close>: every space in the table has a member or a pending entry.
  \<open>detached s r\<close> is the space \<open>s\<close> as \<open>onclose\<close> for \<open>r\<close> leaves it, before it looks
  at \<open>is_empty\<close>.
\<close>

definition nonvacant :: "world \<Rightarrow> bool" where
  "nonvacant w = (\<forall>p s. spaces w p = Some s \<longrightarrow> requests s \<noteq> [] \<or> pending s \<noteq> [])"

definition detached :: "Space \<Rightarrow> request \<Rightarrow> Space" where
  "detached s r = (case get_other s r of None \<Rightarrow> remove s r | Some x \<Rightarrow> remove (remove s r) x)"

text \<open>
  The worlds reached from the empty table by hook calls. One call is left out: a
  NOTIFY without a \<open>data\<close> item for a path that has no space at that moment.
\<close>

definition admissible :: "(string \<Rightarrow> json option) \<Rightarrow> world \<Rightarrow> call \<Rightarrow> bool" where
  "admissible loads w c =
     (case c of
        Message r m \<Rightarrow>
          (case loads m of
             None \<Rightarrow> True
           | Some data \<Rightarrow>
               \<not> (spaces w (path r) = None \<and> getitem data ''method'' = Inr (JStr ''NOTIFY'')
                  \<and> \<not> contains data ''data''))
      | _ \<Rightarrow> True)"

inductive reachable :: "net \<Rightarrow> (string \<Rightarrow> json option) \<Rightarrow> world \<Rightarrow> bool"
  for ok :: net and loads :: "string \<Rightarrow> json option" where
  start: "reachable ok loads world_init"
| step: "reachable ok loads w \<Longrightarrow> admissible loads w c \<Longrightarrow>
         reachable ok loads (snd (run_call ok loads c w))"

subsection \<open>Sample connections, messages and worlds\<close>

definition conn_a :: request where
  "conn_a = \<lparr>conn_id = 1, path = ''/call/5''\<rparr>"

definition conn_b :: request where
  "conn_b = \<lparr>conn_id = 2, path = ''/call/5''\<rparr>"

definition conn_c :: request where
  "conn_c = \<lparr>conn_id = 3, path = ''/call/5''\<rparr>"

definition net_up :: net where
  "net_up h r m = True"

definition net_down :: net where
  "net_down h r m = False"

text \<open>What \<open>json.loads\<close> gives on a few texts; on the others here it raises.\<close>

definition sample_loads :: "string \<Rightarrow> json option" where
  \<open>sample_loads m =
     (if m = ''{"method": "NOTIFY", "data": "answer"}''
      then Some (JObj [(''method'', JStr ''NOTIFY''), (''data'', JStr ''answer'')])
      else if m = ''{"method": "NOTIFY"}''
      then Some (JObj [(''method'', JStr ''NOTIFY'')])
      else if m = ''{"method": "GET", "msg_id": 1, "resource": "/peerconnection"}''
      then Some (JObj [(''method'', JStr ''GET''), (''msg_id'', JNum 1),
                       (''resource'', JStr ''/peerconnection'')])
      else if m = ''{"method": "GET", "resource": "/peerconnection"}''
      then Some (JObj [(''method'', JStr ''GET''), (''resource'', JStr ''/peerconnection'')])
      else if m = ''{"method": "PING"}''
      then Some (JObj [(''method'', JStr ''PING'')])
      else if m = ''{}''
      then Some (JObj [])
      else None)\<close>

definition space_a :: Space where
  "space_a = \<lparr>space_path = ''/call/5'', requests = [conn_a], pending = [(conn_a, JStr ''offer'')]\<rparr>"

definition space_ab :: Space where
  "space_ab = \<lparr>space_path = ''/call/5'', requests = [conn_a, conn_b], pending = []\<rparr>"

definition world_a :: world where
  "world_a = \<lparr>spaces = [''/call/5'' \<mapsto> space_a], out = [], logs = []\<rparr>"

definition world_ab :: world where
  "world_ab = \<lparr>spaces = [''/call/5'' \<mapsto> space_ab], out = [], logs = []\<rparr>"

lemmas sample_defs =
  conn_a_def conn_b_def conn_c_def net_up_def net_down_def sample_loads_def
  space_a_def space_ab_def world_a_def world_ab_def

section \<open>Properties\<close>

subsection \<open>The flush loop\<close>

lemma flush_all_ok:
  "(\<And>h j. ok h r j) \<Longrightarrow>
   flush ok r q w = (None, w\<lparr>out := out w @ map (\<lambda>(x, d). Send r (notify_message d)) q\<rparr>)"
proof (induction q arbitrary: w)
  case Nil
  show ?case by simp
next
  case (Cons e q)
  obtain x d where e: "e = (x, d)" by (cases e)
  show ?case using Cons by (simp add: e send_message_def)
qed

lemma flush_fail:
  "i < length q \<Longrightarrow>
   \<not> ok (out w @ map (\<lambda>(x, d). Send r (notify_message d)) (take i q)) r (notify_message (snd (q ! i))) \<Longrightarrow>
   \<exists>w'. flush ok r q w = (Some SendError, w') \<and> spaces w' = spaces w"
proof (induction q arbitrary: w i)
  case Nil
  then show ?case by simp
next
  case (Cons e q)
  obtain x d where e: "e = (x, d)" by (cases e)
  show ?case
  proof (cases "ok (out w) r (notify_message d)")
    case False
    then show ?thesis by (simp add: e send_message_def)
  next
    case True
    with Cons.prems e obtain j where i: "i = Suc j" by (cases i) auto
    let ?w = "w\<lparr>out := out w @ [Send r (notify_message d)]\<rparr>"
    have "j < length q" using Cons.prems i by simp
    moreover have "\<not> ok (out ?w @ map (\<lambda>(x, d). Send r (notify_message d)) (take j q)) r (notify_message (snd (q ! j)))"
      using Cons.prems(2) by (simp add: i e)
    ultimately obtain w' where "flush ok r q ?w = (Some SendError, w')" "spaces w' = spaces ?w"
      using Cons.IH by blast
    then show ?thesis using True by (simp add: e send_message_def)
  qed
qed

subsection \<open>Capacity\<close>

text \<open>
  C1. The claim: over every sequence of hook calls in which each connection's
  \<open>onhandshake\<close> comes before its \<open>onopen\<close>, a path never has more than two attached
  connections, and \<open>onhandshake\<close> for a path that already has two raises HTTPError
  and changes nothing.

  \<open>onhandshake\<close> is the only place that looks at \<open>is_full\<close>, and \<open>onopen\<close> appends
  without looking. Three handshakes for one path that all come before the first
  \<open>onopen\<close> all pass, and the three \<open>onopen\<close> calls that follow make three members.
\<close>

theorem capacity_exceeded_by_interleaved_handshakes:
  "run_calls net_up sample_loads
     [Handshake conn_a ''/call/5'' [], Handshake conn_b ''/call/5'' [],
      Handshake conn_c ''/call/5'' [], Open conn_a, Open conn_b, Open conn_c] world_init
   = ([None, None, None, None, None, None],
      \<lparr>spaces = [''/call/5'' \<mapsto>
                 \<lparr>space_path = ''/call/5'', requests = [conn_a, conn_b, conn_c], pending = []\<rparr>],
       out = [], logs = [LogInfo ''creating space /call/5'']\<rparr>)"
  by (simp add: onhandshake_def onopen_def world_init_def lookup_or_create_def Space_init_def
      add_def store_def log_def is_full_def conn_a_def conn_b_def conn_c_def)

text \<open>What the claim says of a full path does hold: the handshake is refused and only the log grows.\<close>

lemma onhandshake_full:
  "spaces w p = Some s \<Longrightarrow> length (requests s) \<ge> 2 \<Longrightarrow>
   onhandshake r p headers w =
     (Some (HTTPError ''400 Bad Request - Space Full''), log (LogError ''space is full, closing'') w)"
  by (simp add: onhandshake_def is_full_def)

subsection \<open>Queue, then flush\<close>

text \<open>
  C2. When the sender is the only member of its path's space, a NOTIFY from it sends
  nothing and appends (sender, data) to the pending list. When a connection is then
  opened on a path whose space has pending entries, and its sends succeed, it is sent
  one NOTIFY per entry, oldest first, and the pending list is empty afterwards.
\<close>

theorem queue_then_flush:
  "(spaces w (path a) = Some s \<and> requests s = [a] \<and> loads m = Some data \<and>
    getitem data ''method'' = Inr (JStr ''NOTIFY'') \<and> getitem data ''data'' = Inr d
      \<longrightarrow> onmessage ok loads a m w =
            (None, store (path a) (s\<lparr>pending := pending s @ [(a, d)]\<rparr>) (log (LogDebug m) w)))
   \<and> (spaces w' (path b) = Some s' \<and> (\<forall>h j. ok h b j)
      \<longrightarrow> onopen ok b w' =
            (None, w'\<lparr>spaces := (spaces w')(path b \<mapsto> s'\<lparr>requests := requests s' @ [b], pending := []\<rparr>),
                     out := out w' @ map (\<lambda>(q, d). Send b (notify_message d)) (pending s')\<rparr>))"
proof (intro conjI impI)
  assume h: "spaces w (path a) = Some s \<and> requests s = [a] \<and> loads m = Some data \<and>
    getitem data ''method'' = Inr (JStr ''NOTIFY'') \<and> getitem data ''data'' = Inr d"
  then show "onmessage ok loads a m w =
            (None, store (path a) (s\<lparr>pending := pending s @ [(a, d)]\<rparr>) (log (LogDebug m) w))"
    by (simp add: onmessage_def is_get_peerconnection_def notify_def lookup_or_create_def
        log_def get_other_def store_def)
next
  assume h: "spaces w' (path b) = Some s' \<and> (\<forall>h j. ok h b j)"
  then have f: "\<And>q w. flush ok b q w = (None, w\<lparr>out := out w @ map (\<lambda>(x, d). Send b (notify_message d)) q\<rparr>)"
    using flush_all_ok by blast
  show "onopen ok b w' =
            (None, w'\<lparr>spaces := (spaces w')(path b \<mapsto> s'\<lparr>requests := requests s' @ [b], pending := []\<rparr>),
                     out := out w' @ map (\<lambda>(q, d). Send b (notify_message d)) (pending s')\<rparr>)"
    using h by (simp add: onopen_def lookup_or_create_def add_def store_def f)
qed

theorem queue_then_flush_witness:
  \<open>onmessage net_up sample_loads conn_a ''{"method": "NOTIFY", "data": "answer"}'' world_a =
     (None,
      \<lparr>spaces = [''/call/5'' \<mapsto>
                 \<lparr>space_path = ''/call/5'', requests = [conn_a],
                  pending = [(conn_a, JStr ''offer''), (conn_a, JStr ''answer'')]\<rparr>],
       out = [],
       logs = [LogDebug ''{"method": "NOTIFY", "data": "answer"}'']\<rparr>)
   \<and> onopen net_up conn_b world_a =
     (None,
      \<lparr>spaces = [''/call/5'' \<mapsto>
                 \<lparr>space_path = ''/call/5'', requests = [conn_a, conn_b], pending = []\<rparr>],
       out = [Send conn_b (JObj [(''method'', JStr ''NOTIFY''), (''data'', JStr ''offer'')])],
       logs = []\<rparr>)\<close>
proof -
  have h1: \<open>spaces world_a (path conn_a) = Some space_a \<and> requests space_a = [conn_a] \<and>
      sample_loads ''{"method": "NOTIFY", "data": "answer"}'' =
        Some (JObj [(''method'', JStr ''NOTIFY''), (''data'', JStr ''answer'')]) \<and>
      getitem (JObj [(''method'', JStr ''NOTIFY''), (''data'', JStr ''answer'')]) ''method'' =
        Inr (JStr ''NOTIFY'') \<and>
      getitem (JObj [(''method'', JStr ''NOTIFY''), (''data'', JStr ''answer'')]) ''data'' =
        Inr (JStr ''answer'')\<close>
    by (simp add: sample_defs getitem_def)
  have h2: "spaces world_a (path conn_b) = Some space_a \<and> (\<forall>h j. net_up h conn_b j)"
    by (simp add: sample_defs)
  note t = queue_then_flush [where w = world_a and a = conn_a and s = space_a
      and loads = sample_loads and ok = net_up and w' = world_a and b = conn_b and s' = space_a
      and d = "JStr ''answer''"]
  from t h1 have r1: \<open>onmessage net_up sample_loads conn_a ''{"method": "NOTIFY", "data": "answer"}'' world_a =
      (None, store (path conn_a) (space_a\<lparr>pending := pending space_a @ [(conn_a, JStr ''answer'')]\<rparr>)
               (log (LogDebug ''{"method": "NOTIFY", "data": "answer"}'') world_a))\<close>
    by blast
  from t h2 have r2: "onopen net_up conn_b world_a =
      (None, world_a\<lparr>spaces := (spaces world_a)(path conn_b \<mapsto>
                        space_a\<lparr>requests := requests space_a @ [conn_b], pending := []\<rparr>),
                     out := out world_a @ map (\<lambda>(q, d). Send conn_b (notify_message d)) (pending space_a)\<rparr>)"
    by blast
  show ?thesis
    unfolding r1 r2
    by (simp add: sample_defs store_def log_def notify_message_def)
qed

subsection \<open>Immediate relay\<close>

text \<open>
  C3. When the two members of a space are \<open>a\<close> and \<open>b\<close>, a NOTIFY from \<open>a\<close> whose
  send succeeds sends \<open>b\<close> exactly one NOTIFY with the same data, within the call,
  and leaves the spaces, and so the pending list, as they were.
\<close>

theorem immediate_relay:
  assumes "spaces w (path a) = Some s"
    and "requests s = [a, b] \<or> requests s = [b, a]"
    and "a \<noteq> b"
    and "loads m = Some data"
    and "getitem data ''method'' = Inr (JStr ''NOTIFY'')"
    and "getitem data ''data'' = Inr d"
    and "ok (out w) b (notify_message d)"
  shows "onmessage ok loads a m w =
           (None, (log (LogDebug m) w)\<lparr>out := out w @ [Send b (notify_message d)]\<rparr>)"
  using assms
  by (auto simp add: onmessage_def is_get_peerconnection_def notify_def lookup_or_create_def
        log_def get_other_def send_message_def)

theorem immediate_relay_witness:
  \<open>onmessage net_up sample_loads conn_b ''{"method": "NOTIFY", "data": "answer"}'' world_ab =
     (None,
      \<lparr>spaces = [''/call/5'' \<mapsto> space_ab],
       out = [Send conn_a (JObj [(''method'', JStr ''NOTIFY''), (''data'', JStr ''answer'')])],
       logs = [LogDebug ''{"method": "NOTIFY", "data": "answer"}'']\<rparr>)\<close>
proof -
  have r: \<open>onmessage net_up sample_loads conn_b ''{"method": "NOTIFY", "data": "answer"}'' world_ab =
      (None, (log (LogDebug ''{"method": "NOTIFY", "data": "answer"}'') world_ab)
               \<lparr>out := out world_ab @ [Send conn_a (notify_message (JStr ''answer''))]\<rparr>)\<close>
    by (rule immediate_relay [where s = space_ab
          and data = "JObj [(''method'', JStr ''NOTIFY''), (''data'', JStr ''answer'')]"])
       (simp_all add: sample_defs getitem_def)
  show ?thesis
    unfolding r by (simp add: sample_defs log_def notify_message_def)
qed

subsection \<open>Cascade close\<close>

text \<open>
  C4. When the two members of a space are \<open>a\<close> and \<open>b\<close>, \<open>onclose\<close> for \<open>a\<close> finds
  \<open>b\<close> as the other member, removes both from the space, calls \<open>close\<close> on \<open>b\<close>, and
  returns with no entry for the path in the table.
\<close>

theorem cascade_close:
  assumes "spaces w (path a) = Some s"
    and "requests s = [a, b] \<or> requests s = [b, a]"
    and "a \<noteq> b"
  shows "onclose a w = (None, w\<lparr>spaces := (spaces w)(path a := None), out := out w @ [Close b]\<rparr>)
         \<and> get_other s a = Some b
         \<and> requests (remove (remove s a) b) = []"
  using assms
  by (auto simp add: onclose_def get_other_def remove_def is_empty_def close_def store_def)

theorem cascade_close_witness:
  "onclose conn_a world_ab = (None, \<lparr>spaces = Map.empty, out = [Close conn_b], logs = []\<rparr>)
   \<and> get_other space_ab conn_a = Some conn_b
   \<and> requests (remove (remove space_ab conn_a) conn_b) = []"
proof -
  have r: "onclose conn_a world_ab =
             (None, world_ab\<lparr>spaces := (spaces world_ab)(path conn_a := None),
                             out := out world_ab @ [Close conn_b]\<rparr>)
           \<and> get_other space_ab conn_a = Some conn_b
           \<and> requests (remove (remove space_ab conn_a) conn_b) = []"
    by (rule cascade_close) (simp_all add: sample_defs)
  show ?thesis
    using r by (simp add: sample_defs)
qed

subsection \<open>Discard on sender exit\<close>

text \<open>
  C5. When \<open>a\<close> is the only member of its path's space, whatever it has queued,
  \<open>onclose\<close> for \<open>a\<close> leaves no pending entry of \<open>a\<close> in the space and deletes the
  path from the table without sending anything. A connection \<open>b\<close> opened next on the
  same path gets a new space with itself as only member and is sent nothing.
\<close>

theorem discard_on_sender_exit:
  assumes "spaces w (path a) = Some s"
    and "requests s = [a]"
    and "path b = path a"
  shows "a \<notin> fst ` set (pending (remove s a))
         \<and> onclose a w = (None, w\<lparr>spaces := (spaces w)(path a := None)\<rparr>)
         \<and> onopen ok b (snd (onclose a w)) =
             (None, (log (LogInfo (''creating space '' @ path b)) w)
                      \<lparr>spaces := (spaces w)(path b \<mapsto> \<lparr>space_path = path b, requests = [b], pending = []\<rparr>)\<rparr>)"
proof -
  have c: "onclose a w = (None, w\<lparr>spaces := (spaces w)(path a := None)\<rparr>)"
    using assms by (simp add: onclose_def get_other_def remove_def is_empty_def store_def)
  have "a \<notin> fst ` set (pending (remove s a))"
    by (auto simp add: remove_def)
  moreover have "onopen ok b (snd (onclose a w)) =
             (None, (log (LogInfo (''creating space '' @ path b)) w)
                      \<lparr>spaces := (spaces w)(path b \<mapsto> \<lparr>space_path = path b, requests = [b], pending = []\<rparr>)\<rparr>)"
    unfolding c using assms(3)
    by (simp add: onopen_def lookup_or_create_def Space_init_def add_def store_def log_def)
  ultimately show ?thesis using c by simp
qed

theorem discard_on_sender_exit_witness:
  "conn_a \<notin> fst ` set (pending (remove space_a conn_a))
   \<and> onclose conn_a world_a = (None, \<lparr>spaces = Map.empty, out = [], logs = []\<rparr>)
   \<and> onopen net_up conn_b (snd (onclose conn_a world_a)) =
       (None,
        \<lparr>spaces = [''/call/5'' \<mapsto> \<lparr>space_path = ''/call/5'', requests = [conn_b], pending = []\<rparr>],
         out = [], logs = [LogInfo ''creating space /call/5'']\<rparr>)"
proof -
  have h: "spaces world_a (path conn_a) = Some space_a" "requests space_a = [conn_a]"
      "path conn_b = path conn_a"
    by (simp_all add: sample_defs)
  note t = discard_on_sender_exit [OF h, where ok = net_up]
  from t have r1: "conn_a \<notin> fst ` set (pending (remove space_a conn_a))"
    by blast
  from t have r2: "onclose conn_a world_a = (None, world_a\<lparr>spaces := (spaces world_a)(path conn_a := None)\<rparr>)"
    by blast
  from t have r3: "onopen net_up conn_b (snd (onclose conn_a world_a)) =
             (None, (log (LogInfo (''creating space '' @ path conn_b)) world_a)
                      \<lparr>spaces := (spaces world_a)(path conn_b \<mapsto>
                          \<lparr>space_path = path conn_b, requests = [conn_b], pending = []\<rparr>)\<rparr>)"
    by blast
  show ?thesis
    unfolding r3 unfolding r2 using r1
    by (simp add: world_a_def conn_a_def conn_b_def log_def)
qed


subsection \<open>The configuration request\<close>

text \<open>
  C6. A message whose method is GET and whose resource is /peerconnection is answered,
  when the send succeeds, with one message to the sender: the items \<open>code\<close> = success
  and \<open>result\<close> = \<open>{configuration: configuration}\<close>, with the constant
  \<open>configuration\<close> of the module, followed by \<open>msg_id\<close> with the request's value when
  the request has one and by nothing when it has none. The spaces are not touched.
\<close>

theorem config_idempotence:
  assumes "loads m = Some data"
    and "getitem data ''method'' = Inr (JStr ''GET'')"
    and "getitem data ''resource'' = Inr (JStr ''/peerconnection'')"
    and "ok (out w) r (JObj (response data))"
  shows "onmessage ok loads r m w =
           (None, (log (LogDebug m) w)\<lparr>out := out w @ [Send r (JObj (response data))]\<rparr>)
         \<and> response data =
             [(''code'', JStr ''success''), (''result'', JObj [(''configuration'', configuration)])]
             @ (case getitem data ''msg_id'' of Inr v \<Rightarrow> [(''msg_id'', v)] | Inl e \<Rightarrow> [])"
proof -
  obtain kvs where d: "data = JObj kvs"
    using assms(2) by (cases data) (simp_all add: getitem_def)
  have "response data =
             [(''code'', JStr ''success''), (''result'', JObj [(''configuration'', configuration)])]
             @ (case getitem data ''msg_id'' of Inr v \<Rightarrow> [(''msg_id'', v)] | Inl e \<Rightarrow> [])"
    by (cases "map_of kvs ''msg_id''") (simp_all add: d response_def contains_def getitem_def)
  moreover have "onmessage ok loads r m w =
           (None, (log (LogDebug m) w)\<lparr>out := out w @ [Send r (JObj (response data))]\<rparr>)"
    using assms by (simp add: onmessage_def is_get_peerconnection_def send_message_def log_def)
  ultimately show ?thesis by simp
qed

theorem config_idempotence_witness:
  \<open>onmessage net_up sample_loads conn_a
      ''{"method": "GET", "msg_id": 1, "resource": "/peerconnection"}'' world_a =
     (None,
      \<lparr>spaces = [''/call/5'' \<mapsto> space_a],
       out = [Send conn_a (JObj [(''code'', JStr ''success''),
                                  (''result'', JObj [(''configuration'', configuration)]),
                                  (''msg_id'', JNum 1)])],
       logs = [LogDebug ''{"method": "GET", "msg_id": 1, "resource": "/peerconnection"}'']\<rparr>)
   \<and> onmessage net_up sample_loads conn_a
      ''{"method": "GET", "resource": "/peerconnection"}'' world_a =
     (None,
      \<lparr>spaces = [''/call/5'' \<mapsto> space_a],
       out = [Send conn_a (JObj [(''code'', JStr ''success''),
                                  (''result'', JObj [(''configuration'', configuration)])])],
       logs = [LogDebug ''{"method": "GET", "resource": "/peerconnection"}'']\<rparr>)\<close>
proof -
  let ?d1 = "JObj [(''method'', JStr ''GET''), (''msg_id'', JNum 1), (''resource'', JStr ''/peerconnection'')]"
  let ?d2 = "JObj [(''method'', JStr ''GET''), (''resource'', JStr ''/peerconnection'')]"
  have r1: \<open>onmessage net_up sample_loads conn_a
      ''{"method": "GET", "msg_id": 1, "resource": "/peerconnection"}'' world_a =
        (None, (log (LogDebug ''{"method": "GET", "msg_id": 1, "resource": "/peerconnection"}'') world_a)
                 \<lparr>out := out world_a @ [Send conn_a (JObj (response ?d1))]\<rparr>)
      \<and> response ?d1 =
          [(''code'', JStr ''success''), (''result'', JObj [(''configuration'', configuration)])]
          @ (case getitem ?d1 ''msg_id'' of Inr v \<Rightarrow> [(''msg_id'', v)] | Inl e \<Rightarrow> [])\<close>
    by (rule config_idempotence) (simp_all add: sample_loads_def net_up_def getitem_def)
  have r2: \<open>onmessage net_up sample_loads conn_a
      ''{"method": "GET", "resource": "/peerconnection"}'' world_a =
        (None, (log (LogDebug ''{"method": "GET", "resource": "/peerconnection"}'') world_a)
                 \<lparr>out := out world_a @ [Send conn_a (JObj (response ?d2))]\<rparr>)
      \<and> response ?d2 =
          [(''code'', JStr ''success''), (''result'', JObj [(''configuration'', configuration)])]
          @ (case getitem ?d2 ''msg_id'' of Inr v \<Rightarrow> [(''msg_id'', v)] | Inl e \<Rightarrow> [])\<close>
    by (rule config_idempotence) (simp_all add: sample_loads_def net_up_def getitem_def)
  show ?thesis
    using r1 r2 by (simp add: world_a_def log_def getitem_def)
qed


subsection \<open>Closing twice\<close>

text \<open>
  C9. The claim: \<open>onclose\<close> called again for a connection that is already detached, in
  particular the close hook of the peer that an earlier \<open>onclose\<close> closed, leaves the
  table and every space's members and pending entries unchanged.

  \<open>Space.remove\<close> ignores a connection that is not found, but \<open>onclose\<close> does not
  look whether its connection is a member before it asks for the other one:
  \<open>get_other\<close> of a connection that is not in the space is the first member. So the
  close hook of \<open>b\<close>, arriving after \<open>a\<close>'s \<open>onclose\<close> has detached \<open>b\<close> and after a
  new connection \<open>c\<close> has opened on the same path, takes \<open>c\<close> for the other member,
  removes it, closes it and deletes its space. The path never has more than two
  members on the way.
\<close>

theorem stale_close_hook_closes_newcomer:
  "run_calls net_up sample_loads
     [Handshake conn_a ''/call/5'' [], Open conn_a, Handshake conn_b ''/call/5'' [], Open conn_b,
      CloseHook conn_a, Handshake conn_c ''/call/5'' [], Open conn_c] world_init
   = ([None, None, None, None, None, None, None],
      \<lparr>spaces = [''/call/5'' \<mapsto>
                 \<lparr>space_path = ''/call/5'', requests = [conn_c], pending = []\<rparr>],
       out = [Close conn_b],
       logs = [LogInfo ''creating space /call/5'', LogInfo ''creating space /call/5'']\<rparr>)
   \<and> run_calls net_up sample_loads
     [Handshake conn_a ''/call/5'' [], Open conn_a, Handshake conn_b ''/call/5'' [], Open conn_b,
      CloseHook conn_a, Handshake conn_c ''/call/5'' [], Open conn_c, CloseHook conn_b] world_init
   = ([None, None, None, None, None, None, None, None],
      \<lparr>spaces = Map.empty,
       out = [Close conn_b, Close conn_c],
       logs = [LogInfo ''creating space /call/5'', LogInfo ''creating space /call/5'']\<rparr>)"
  by (simp add: onhandshake_def onopen_def onclose_def world_init_def lookup_or_create_def
      Space_init_def add_def store_def log_def close_def is_full_def is_empty_def get_other_def
      remove_def conn_a_def conn_b_def conn_c_def)

text \<open>
  What does hold: when the first \<open>onclose\<close> is for a member of a space of at most two
  distinct members, or for a path with no space, the path is not in the table
  afterwards, and an \<open>onclose\<close> for any connection of that path that runs before any
  other hook changes nothing.
\<close>

lemma onclose_repeated_at_once:
  assumes "\<forall>s. spaces w (path r) = Some s \<longrightarrow>
             r \<in> set (requests s) \<and> distinct (requests s) \<and> length (requests s) \<le> 2"
    and "path r' = path r"
  shows "spaces (snd (onclose r w)) (path r) = None
         \<and> onclose r' (snd (onclose r w)) = (None, snd (onclose r w))"
proof (cases "spaces w (path r)")
  case None
  then show ?thesis using assms(2) by (simp add: onclose_def)
next
  case (Some s)
  with assms(1) have m: "r \<in> set (requests s)" "distinct (requests s)" "length (requests s) \<le> 2"
    by simp_all
  have gone: "spaces (snd (onclose r w)) (path r) = None"
  proof (cases "requests s")
    case Nil
    then show ?thesis using m by simp
  next
    case (Cons x xs)
    note c1 = this
    show ?thesis
    proof (cases xs)
      case Nil
      then show ?thesis using m c1 Some
        by (simp add: onclose_def get_other_def remove_def is_empty_def store_def)
    next
      case (Cons y ys)
      then have "ys = []" using m c1 by simp
      then show ?thesis using m c1 Cons Some
        by (auto simp add: onclose_def get_other_def remove_def is_empty_def store_def close_def)
    qed
  qed
  then show ?thesis using assms(2) by (simp add: onclose_def)
qed

lemma onclose_repeated_at_once_sample:
  "spaces (snd (onclose conn_a world_ab)) (path conn_a) = None
   \<and> onclose conn_a (snd (onclose conn_a world_ab)) = (None, snd (onclose conn_a world_ab))
   \<and> onclose conn_b (snd (onclose conn_a world_ab)) = (None, snd (onclose conn_a world_ab))
   \<and> snd (onclose conn_a world_ab) = \<lparr>spaces = Map.empty, out = [Close conn_b], logs = []\<rparr>"
proof -
  have h: "\<forall>s. spaces world_ab (path conn_a) = Some s \<longrightarrow>
             conn_a \<in> set (requests s) \<and> distinct (requests s) \<and> length (requests s) \<le> 2"
    by (simp add: sample_defs)
  have p: "path conn_a = path conn_a" "path conn_b = path conn_a"
    by (simp_all add: sample_defs)
  have e: "snd (onclose conn_a world_ab) = \<lparr>spaces = Map.empty, out = [Close conn_b], logs = []\<rparr>"
    by (simp add: sample_defs onclose_def get_other_def remove_def is_empty_def store_def close_def)
  show ?thesis
    using onclose_repeated_at_once [OF h p(1)] onclose_repeated_at_once [OF h p(2)] e by simp
qed


subsection \<open>A send that fails\<close>

text \<open>
  C10. If one of the sends of the flush in \<open>onopen\<close> fails (the entry at some index
  \<open>i\<close> of the pending list cannot be sent after the entries before it were), then
  \<open>onopen\<close> raises that error, the new connection is a member of the space and the
  pending list is what it was before the call. A NOTIFY whose forward to the other
  member fails returns normally instead, and changes nothing but the log.
\<close>

theorem flush_failure_propagates:
  "(spaces w (path r) = Some s \<and> i < length (pending s) \<and>
    \<not> ok (out w @ map (\<lambda>(q, d). Send r (notify_message d)) (take i (pending s))) r
         (notify_message (snd (pending s ! i)))
      \<longrightarrow> (\<exists>w'. onopen ok r w = (Some SendError, w') \<and>
                spaces w' = (spaces w)(path r \<mapsto> s\<lparr>requests := requests s @ [r]\<rparr>)))
   \<and> (spaces w (path a) = Some s' \<and> (requests s' = [a, b] \<or> requests s' = [b, a]) \<and> a \<noteq> b \<and>
      loads m = Some data \<and> getitem data ''method'' = Inr (JStr ''NOTIFY'') \<and>
      getitem data ''data'' = Inr d \<and> \<not> ok (out w) b (notify_message d)
      \<longrightarrow> onmessage ok loads a m w = (None, log (LogDebug m) w))"
proof (intro conjI impI)
  assume h: "spaces w (path r) = Some s \<and> i < length (pending s) \<and>
    \<not> ok (out w @ map (\<lambda>(q, d). Send r (notify_message d)) (take i (pending s))) r
         (notify_message (snd (pending s ! i)))"
  let ?s1 = "s\<lparr>requests := requests s @ [r]\<rparr>"
  let ?w2 = "store (path r) ?s1 w"
  have "\<exists>w'. flush ok r (pending s) ?w2 = (Some SendError, w') \<and> spaces w' = spaces ?w2"
    by (rule flush_fail [where i = i]) (use h in \<open>simp_all add: store_def\<close>)
  then obtain w' where f: "flush ok r (pending s) ?w2 = (Some SendError, w')" "spaces w' = spaces ?w2"
    by blast
  have "onopen ok r w = (Some SendError, w')"
    using h f(1) by (simp add: onopen_def lookup_or_create_def add_def)
  moreover have "spaces w' = (spaces w)(path r \<mapsto> ?s1)"
    using f(2) by (simp add: store_def)
  ultimately show "\<exists>w'. onopen ok r w = (Some SendError, w') \<and>
                spaces w' = (spaces w)(path r \<mapsto> s\<lparr>requests := requests s @ [r]\<rparr>)"
    by blast
next
  assume "spaces w (path a) = Some s' \<and> (requests s' = [a, b] \<or> requests s' = [b, a]) \<and> a \<noteq> b \<and>
      loads m = Some data \<and> getitem data ''method'' = Inr (JStr ''NOTIFY'') \<and>
      getitem data ''data'' = Inr d \<and> \<not> ok (out w) b (notify_message d)"
  then show "onmessage ok loads a m w = (None, log (LogDebug m) w)"
    by (auto simp add: onmessage_def is_get_peerconnection_def notify_def lookup_or_create_def
        log_def get_other_def send_message_def)
qed

theorem flush_failure_propagates_witness:
  \<open>fst (onopen net_down conn_b world_a) = Some SendError
   \<and> spaces (snd (onopen net_down conn_b world_a)) =
       [''/call/5'' \<mapsto> \<lparr>space_path = ''/call/5'', requests = [conn_a, conn_b],
                          pending = [(conn_a, JStr ''offer'')]\<rparr>]
   \<and> onmessage net_down sample_loads conn_a ''{"method": "NOTIFY", "data": "answer"}'' world_ab =
       (None, \<lparr>spaces = [''/call/5'' \<mapsto> space_ab], out = [],
               logs = [LogDebug ''{"method": "NOTIFY", "data": "answer"}'']\<rparr>)\<close>
proof -
  note t = flush_failure_propagates [where w = world_a and r = conn_b and s = space_a and i = 0
      and ok = net_down]
  have h1: "spaces world_a (path conn_b) = Some space_a \<and> 0 < length (pending space_a) \<and>
    \<not> net_down (out world_a @ map (\<lambda>(q, d). Send conn_b (notify_message d)) (take 0 (pending space_a))) conn_b
         (notify_message (snd (pending space_a ! 0)))"
    by (simp add: sample_defs)
  from t h1 obtain w' where w': "onopen net_down conn_b world_a = (Some SendError, w')"
      "spaces w' = (spaces world_a)(path conn_b \<mapsto> space_a\<lparr>requests := requests space_a @ [conn_b]\<rparr>)"
    by blast
  note u = flush_failure_propagates [where w = world_ab and a = conn_a and b = conn_b
      and s' = space_ab and ok = net_down and loads = sample_loads and d = "JStr ''answer''"
      and data = "JObj [(''method'', JStr ''NOTIFY''), (''data'', JStr ''answer'')]"]
  have h2: \<open>spaces world_ab (path conn_a) = Some space_ab \<and>
      (requests space_ab = [conn_a, conn_b] \<or> requests space_ab = [conn_b, conn_a]) \<and>
      conn_a \<noteq> conn_b \<and>
      sample_loads ''{"method": "NOTIFY", "data": "answer"}'' =
        Some (JObj [(''method'', JStr ''NOTIFY''), (''data'', JStr ''answer'')]) \<and>
      getitem (JObj [(''method'', JStr ''NOTIFY''), (''data'', JStr ''answer'')]) ''method'' =
        Inr (JStr ''NOTIFY'') \<and>
      getitem (JObj [(''method'', JStr ''NOTIFY''), (''data'', JStr ''answer'')]) ''data'' =
        Inr (JStr ''answer'') \<and>
      \<not> net_down (out world_ab) conn_b (notify_message (JStr ''answer''))\<close>
    by (simp add: sample_defs getitem_def)
  from u h2 have r2: \<open>onmessage net_down sample_loads conn_a ''{"method": "NOTIFY", "data": "answer"}'' world_ab =
      (None, log (LogDebug ''{"method": "NOTIFY", "data": "answer"}'') world_ab)\<close>
    by blast
  show ?thesis
    unfolding r2 w' using w'(2) by (simp add: sample_defs log_def)
qed


subsection \<open>Messages that are neither request\<close>







subsection \<open>When a space is in the table\<close>

lemma flush_spaces: "spaces (snd (flush ok r q w)) = spaces w"
proof (induction q arbitrary: w)
  case Nil
  show ?case by simp
next
  case (Cons e q)
  obtain x d where e: "e = (x, d)" by (cases e)
  show ?case using Cons by (simp add: e send_message_def)
qed

lemma onhandshake_spaces: "spaces (snd (onhandshake r p h w)) = spaces w"
  by (simp add: onhandshake_def log_def split: option.splits)

lemma onopen_spaces:
  "\<exists>s'. spaces (snd (onopen ok r w)) = (spaces w)(path r \<mapsto> s') \<and> requests s' \<noteq> []"
proof -
  obtain s w1 where l: "lookup_or_create (path r) w = (s, w1)"
    by (cases "lookup_or_create (path r) w")
  then have w1: "spaces w1 = (spaces w)(path r \<mapsto> s)"
    by (auto simp add: lookup_or_create_def log_def split: option.splits)
  let ?s1 = "add s r"
  let ?w2 = "store (path r) ?s1 w1"
  obtain e w3 where f: "flush ok r (pending ?s1) ?w2 = (e, w3)"
    by (cases "flush ok r (pending ?s1) ?w2")
  have w3: "spaces w3 = spaces ?w2"
    using flush_spaces [of ok r "pending ?s1" ?w2] f by simp
  show ?thesis
  proof (cases e)
    case None
    then have "spaces (snd (onopen ok r w)) = (spaces w)(path r \<mapsto> ?s1\<lparr>pending := []\<rparr>)"
      using l f w1 w3 by (simp add: onopen_def store_def)
    moreover have "requests (?s1\<lparr>pending := []\<rparr>) \<noteq> []" by (simp add: add_def)
    ultimately show ?thesis by blast
  next
    case (Some err)
    then have "spaces (snd (onopen ok r w)) = (spaces w)(path r \<mapsto> ?s1)"
      using l f w1 w3 by (simp add: onopen_def store_def)
    moreover have "requests ?s1 \<noteq> []" by (simp add: add_def)
    ultimately show ?thesis by blast
  qed
qed

lemma onclose_spaces:
  "spaces (snd (onclose r w)) =
     (case spaces w (path r) of
        None \<Rightarrow> spaces w
      | Some s \<Rightarrow>
          if requests (detached s r) = [] then (spaces w)(path r := None)
          else (spaces w)(path r \<mapsto> detached s r))"
  by (auto simp add: onclose_def detached_def is_empty_def store_def close_def
      split: option.splits)

lemma notify_spaces:
  "spaces (snd (notify ok r data w)) = spaces w
   \<or> (\<exists>s'. spaces (snd (notify ok r data w)) = (spaces w)(path r \<mapsto> s') \<and> pending s' \<noteq> [])
   \<or> (spaces w (path r) = None \<and> \<not> contains data ''data'' \<and>
      spaces (snd (notify ok r data w)) = (spaces w)(path r \<mapsto> Space_init (path r)))"
proof (cases "spaces w (path r)")
  case (Some s)
  show ?thesis
  proof (cases "get_other s r")
    case None
    show ?thesis
    proof (cases "getitem data ''data''")
      case (Inl e)
      then show ?thesis using None Some
        by (simp add: notify_def lookup_or_create_def)
    next
      case (Inr d)
      let ?s' = "s\<lparr>pending := pending s @ [(r, d)]\<rparr>"
      have "spaces (snd (notify ok r data w)) = (spaces w)(path r \<mapsto> ?s')"
        using Inr None Some by (simp add: notify_def lookup_or_create_def store_def)
      moreover have "pending ?s' \<noteq> []" by simp
      ultimately show ?thesis by blast
    qed
  next
    case (Some x)
    then have "spaces (snd (notify ok r data w)) = spaces w"
      using \<open>spaces w (path r) = Some s\<close>
      by (cases "getitem data ''data''")
         (simp_all add: notify_def lookup_or_create_def send_message_def)
    then show ?thesis by simp
  qed
next
  case None
  have g: "get_other (Space_init (path r)) r = None"
    by (simp add: get_other_def Space_init_def)
  show ?thesis
  proof (cases "getitem data ''data''")
    case (Inl e)
    then have "\<not> contains data ''data''"
      by (cases data) (auto simp add: getitem_def contains_def split: option.splits)
    then show ?thesis using None Inl g
      by (simp add: notify_def lookup_or_create_def log_def)
  next
    case (Inr d)
    let ?s' = "(Space_init (path r))\<lparr>pending := pending (Space_init (path r)) @ [(r, d)]\<rparr>"
    have "spaces (snd (notify ok r data w)) = (spaces w)(path r \<mapsto> ?s')"
      using Inr None g by (simp add: notify_def lookup_or_create_def log_def store_def)
    moreover have "pending ?s' \<noteq> []" by simp
    ultimately show ?thesis by blast
  qed
qed

lemma onmessage_spaces:
  "spaces (snd (onmessage ok loads r m w)) = spaces w
   \<or> (\<exists>s'. spaces (snd (onmessage ok loads r m w)) = (spaces w)(path r \<mapsto> s') \<and> pending s' \<noteq> [])
   \<or> (\<exists>data. loads m = Some data \<and> spaces w (path r) = None \<and>
        getitem data ''method'' = Inr (JStr ''NOTIFY'') \<and> \<not> contains data ''data'' \<and>
        spaces (snd (onmessage ok loads r m w)) = (spaces w)(path r \<mapsto> Space_init (path r)))"
proof (cases "loads m")
  case None
  then show ?thesis by (simp add: onmessage_def log_def)
next
  case (Some data)
  let ?w0 = "log (LogDebug m) w"
  have s0: "spaces ?w0 = spaces w" by (simp add: log_def)
  show ?thesis
  proof (cases "is_get_peerconnection data")
    case (Inl e)
    then show ?thesis using Some by (simp add: onmessage_def log_def)
  next
    case (Inr g)
    show ?thesis
    proof (cases g)
      case True
      then show ?thesis using Some Inr
        by (simp add: onmessage_def log_def send_message_def Let_def)
    next
      case False
      show ?thesis
      proof (cases "getitem data ''method''")
        case (Inl e)
        then show ?thesis using Some Inr False by (simp add: onmessage_def log_def)
      next
        case (Inr meth)
        show ?thesis
        proof (cases "meth = JStr ''NOTIFY''")
          case False
          then show ?thesis
            using Some \<open>is_get_peerconnection data = Inr g\<close> \<open>\<not> g\<close> Inr
            by (simp add: onmessage_def log_def)
        next
          case True
          then have e: "onmessage ok loads r m w = notify ok r data ?w0"
            using Some \<open>is_get_peerconnection data = Inr g\<close> \<open>\<not> g\<close> Inr
            by (simp add: onmessage_def)
          show ?thesis
            using notify_spaces [of ok r data ?w0] Some Inr True
            unfolding e s0 by auto
        qed
      qed
    qed
  qed
qed

lemma nonvacant_step:
  assumes "nonvacant w" and "admissible loads w c"
  shows "nonvacant (snd (run_call ok loads c w))"
proof (cases c)
  case (Handshake r p h)
  then show ?thesis using assms(1) by (simp add: nonvacant_def onhandshake_spaces)
next
  case (Open r)
  obtain s' where "spaces (snd (onopen ok r w)) = (spaces w)(path r \<mapsto> s')" "requests s' \<noteq> []"
    using onopen_spaces by blast
  then show ?thesis using assms(1) Open by (auto simp add: nonvacant_def)
next
  case (CloseHook r)
  show ?thesis using assms(1) CloseHook
    by (auto simp add: nonvacant_def onclose_spaces split: option.splits if_splits)
next
  case (Message r m)
  have a: "\<And>data. loads m = Some data \<Longrightarrow>
      \<not> (spaces w (path r) = None \<and> getitem data ''method'' = Inr (JStr ''NOTIFY'')
         \<and> \<not> contains data ''data'')"
    using assms(2) Message by (simp add: admissible_def)
  from onmessage_spaces [of ok loads r m w]
  consider "spaces (snd (onmessage ok loads r m w)) = spaces w"
    | s' where "spaces (snd (onmessage ok loads r m w)) = (spaces w)(path r \<mapsto> s')" "pending s' \<noteq> []"
    using a by blast
  then show ?thesis
  proof cases
    case 1
    then show ?thesis using assms(1) Message by (simp add: nonvacant_def)
  next
    case 2
    then show ?thesis using assms(1) Message by (auto simp add: nonvacant_def)
  qed
qed

lemma deleted_iff:
  "(spaces w p \<noteq> None \<and> spaces (snd (run_call ok loads c w)) p = None) =
   (\<exists>r s. c = CloseHook r \<and> p = path r \<and> spaces w p = Some s \<and> requests (detached s r) = [])"
proof (cases c)
  case (Handshake r q h)
  then show ?thesis by (auto simp add: onhandshake_spaces)
next
  case (Open r)
  obtain s' where "spaces (snd (onopen ok r w)) = (spaces w)(path r \<mapsto> s')"
    using onopen_spaces by blast
  then show ?thesis using Open by (auto split: if_splits)
next
  case (Message r m)
  from onmessage_spaces [of ok loads r m w]
  have "spaces (snd (onmessage ok loads r m w)) = spaces w
      \<or> (\<exists>s'. spaces (snd (onmessage ok loads r m w)) = (spaces w)(path r \<mapsto> s'))"
    by blast
  then show ?thesis using Message by (auto split: if_splits)
next
  case (CloseHook r)
  then show ?thesis
    by (auto simp add: onclose_spaces split: option.splits if_splits)
qed

text \<open>
  C8. The claim: in every world reached by the four hooks, every space in the table
  has a member or a pending entry, and a space leaves the table exactly when its
  member list is empty after a removal, never after a flush.

  As amended, with the one call left out that \<open>reachable\<close> leaves out (a NOTIFY
  without \<open>data\<close> for a path that has no space): in every world so reached every
  space has a member or a pending entry; and a call takes a path out of the table
  exactly when it is \<open>onclose\<close> for a connection of that path and the space's member
  list is empty after \<open>onclose\<close>'s removals. \<open>onhandshake\<close>, \<open>onopen\<close> with its flush
  and \<open>onmessage\<close> take none out.
\<close>

theorem session_kept_while_occupied:
  assumes "reachable ok loads w"
  shows "nonvacant w
         \<and> (\<forall>c p. (spaces w p \<noteq> None \<and> spaces (snd (run_call ok loads c w)) p = None) =
                  (\<exists>r s. c = CloseHook r \<and> p = path r \<and> spaces w p = Some s \<and>
                         requests (detached s r) = []))"
proof -
  have "nonvacant w"
    using assms
  proof (induction rule: reachable.induct)
    case start
    show ?case by (simp add: nonvacant_def world_init_def)
  next
    case (step w c)
    then show ?case by (simp add: nonvacant_step)
  qed
  moreover have "\<forall>c p. (spaces w p \<noteq> None \<and> spaces (snd (run_call ok loads c w)) p = None) =
                  (\<exists>r s. c = CloseHook r \<and> p = path r \<and> spaces w p = Some s \<and>
                         requests (detached s r) = [])"
    by (intro allI) (rule deleted_iff)
  ultimately show ?thesis by (rule conjI)
qed

theorem session_kept_while_occupied_witness:
  "reachable net_up sample_loads (snd (run_call net_up sample_loads (Open conn_a) world_init))
   \<and> nonvacant (snd (run_call net_up sample_loads (Open conn_a) world_init))
   \<and> spaces (snd (run_call net_up sample_loads (Open conn_a) world_init)) ''/call/5'' \<noteq> None
   \<and> spaces (snd (run_call net_up sample_loads (CloseHook conn_a)
                (snd (run_call net_up sample_loads (Open conn_a) world_init)))) ''/call/5'' = None"
proof -
  let ?W = "snd (run_call net_up sample_loads (Open conn_a) world_init)"
  have a: "admissible sample_loads world_init (Open conn_a)"
    by (simp add: admissible_def)
  have r: "reachable net_up sample_loads ?W"
    by (rule reachable.step [OF reachable.start a])
  note t = session_kept_while_occupied [OF r]
  have W: "spaces ?W = [''/call/5'' \<mapsto> \<lparr>space_path = ''/call/5'', requests = [conn_a], pending = []\<rparr>]"
    by (simp add: onopen_def world_init_def lookup_or_create_def Space_init_def add_def
        store_def log_def conn_a_def)
  have d: "\<exists>r s. CloseHook conn_a = CloseHook r \<and> ''/call/5'' = path r \<and>
      spaces ?W ''/call/5'' = Some s \<and> requests (detached s r) = []"
    unfolding W
    by (simp add: detached_def get_other_def remove_def conn_a_def)
  from t have n: "nonvacant ?W" by (rule conjunct1)
  from t have "(spaces ?W ''/call/5'' \<noteq> None \<and>
      spaces (snd (run_call net_up sample_loads (CloseHook conn_a) ?W)) ''/call/5'' = None) =
     (\<exists>r s. CloseHook conn_a = CloseHook r \<and> ''/call/5'' = path r \<and>
      spaces ?W ''/call/5'' = Some s \<and> requests (detached s r) = [])"
    by blast
  with d have "spaces ?W ''/call/5'' \<noteq> None \<and>
      spaces (snd (run_call net_up sample_loads (CloseHook conn_a) ?W)) ''/call/5'' = None"
    by (rule iffD2 [rotated])
  with r n show ?thesis by blast
qed

text \<open>
  Against the claim as it stands: \<open>a\<close> and \<open>b\<close> open on one path, \<open>a\<close> closes, which
  detaches \<open>b\<close> and deletes the space, and a NOTIFY without \<open>data\<close> from \<open>b\<close> is
  handled before \<open>b\<close>'s own close hook. \<open>onmessage\<close> creates the space again and then
  raises KeyError at \<open>data['data']\<close>: the table holds a space with no member and no
  pending entry.
\<close>

theorem vacant_session_counterexample:
  \<open>run_calls net_up sample_loads
     [Handshake conn_a ''/call/5'' [], Open conn_a, Handshake conn_b ''/call/5'' [], Open conn_b,
      CloseHook conn_a, Message conn_b ''{"method": "NOTIFY"}''] world_init
   = ([None, None, None, None, None, Some (KeyError ''data'')],
      \<lparr>spaces = [''/call/5'' \<mapsto> \<lparr>space_path = ''/call/5'', requests = [], pending = []\<rparr>],
       out = [Close conn_b],
       logs = [LogInfo ''creating space /call/5'', LogDebug ''{"method": "NOTIFY"}'',
               LogInfo ''creating space /call/5'']\<rparr>)
   \<and> \<not> nonvacant
      \<lparr>spaces = [''/call/5'' \<mapsto> \<lparr>space_path = ''/call/5'', requests = [], pending = []\<rparr>],
       out = [Close conn_b],
       logs = [LogInfo ''creating space /call/5'', LogDebug ''{"method": "NOTIFY"}'',
               LogInfo ''creating space /call/5'']\<rparr>\<close>
proof -
  have \<open>run_calls net_up sample_loads
     [Handshake conn_a ''/call/5'' [], Open conn_a, Handshake conn_b ''/call/5'' [], Open conn_b,
      CloseHook conn_a, Message conn_b ''{"method": "NOTIFY"}''] world_init
   = ([None, None, None, None, None, Some (KeyError ''data'')],
      \<lparr>spaces = [''/call/5'' \<mapsto> \<lparr>space_path = ''/call/5'', requests = [], pending = []\<rparr>],
       out = [Close conn_b],
       logs = [LogInfo ''creating space /call/5'', LogDebug ''{"method": "NOTIFY"}'',
               LogInfo ''creating space /call/5'']\<rparr>)\<close>
    by (simp add: onhandshake_def onopen_def onclose_def onmessage_def notify_def
        is_get_peerconnection_def getitem_def sample_loads_def world_init_def
        lookup_or_create_def Space_init_def add_def store_def log_def close_def is_full_def
        is_empty_def get_other_def remove_def conn_a_def conn_b_def)
  moreover have \<open>\<not> nonvacant
      \<lparr>spaces = [''/call/5'' \<mapsto> \<lparr>space_path = ''/call/5'', requests = [], pending = []\<rparr>],
       out = [Close conn_b],
       logs = [LogInfo ''creating space /call/5'', LogDebug ''{"method": "NOTIFY"}'',
               LogInfo ''creating space /call/5'']\<rparr>\<close>
    by (simp add: nonvacant_def)
  ultimately show ?thesis by (rule conjI)
qed


end
